theory Spec2Isabelle
  imports Complex_Main "HOL-Library.AList"
begin

section \<open>Python values and errors\<close>

text \<open>
  The exceptions that the modelled code paths can raise. A function that may raise
  returns \<open>py_error + 'a\<close>, with \<open>Inl\<close> for the exception.
  \<open>KeyError\<close> and \<open>QiskitOptimizationError\<close> come from the external optimisation
  library only.
\<close>

datatype py_error =
  ZeroDivisionError | TypeError | ValueError | IndexError | KeyError | QiskitOptimizationError

text \<open>
  The Python values that flow through \<open>postprocess\<close> and object attributes. A dict
  with string keys is an association list in insertion order; \<open>AList.update\<close> is
  Python's \<open>d[k] = v\<close>: it overwrites in place or appends at the end.
\<close>

datatype py_value =
    PyNone
  | PyBool bool
  | PyStr string
  | PyNum rat
  | PyTuple "py_value list"
  | PyDict "(string \<times> py_value) list"

type_synonym py_object = "(string \<times> py_value) list"

text \<open>
  \<open>obj[key] = v\<close> for a string key: only a dict accepts it; \<open>None\<close>, booleans,
  numbers, strings and tuples raise \<open>TypeError\<close>.
\<close>

fun py_setitem :: "py_value \<Rightarrow> string \<Rightarrow> py_value \<Rightarrow> py_error + py_value" where
  "py_setitem (PyDict d) key v = Inr (PyDict (AList.update key v d))"
| "py_setitem other key v = Inl TypeError"

section \<open>Transformation.py: the pre/postprocess contract\<close>

text \<open>The default \<open>reverse_transform\<close> of the base class: a bare \<open>return\<close>.\<close>

definition reverse_transform :: "(string \<times> py_value) list \<Rightarrow> py_error + py_value" where
  "reverse_transform solution = Inr PyNone"

text \<open>
  \<open>postprocess\<close> calls the \<open>reverse_transform\<close> of the object it runs on, which a
  subclass may override: it is the first argument. The clock belongs to the absent
  \<open>utils\<close> module; \<open>elapsed\<close> is what \<open>end_time_measurement(start)\<close> returns.
  \<open>config\<close> is accepted and not used, as in the source.
\<close>

definition postprocess ::
  "((string \<times> py_value) list \<Rightarrow> py_error + py_value) \<Rightarrow> rat
     \<Rightarrow> (string \<times> py_value) list \<Rightarrow> 'c \<Rightarrow> py_error + (py_value \<times> rat)" where
  "postprocess self_reverse_transform elapsed input_data config =
     (case self_reverse_transform input_data of
        Inl e \<Rightarrow> Inl e
      | Inr output \<Rightarrow>
          (case py_setitem output ''Transformation'' (PyBool True) of
             Inl e \<Rightarrow> Inl e
           | Inr output \<Rightarrow>
               (case map_of input_data ''inference'' of
                  None \<Rightarrow> Inr (output, elapsed)
                | Some inference \<Rightarrow>
                    (case py_setitem output ''inference'' inference of
                       Inl e \<Rightarrow> Inl e
                     | Inr output \<Rightarrow> Inr (output, elapsed)))))"

section \<open>Transformation.py: discretization of the unit cube\<close>

text \<open>
  Arrays of floats are lists of rows of rationals: each float64 stands for the rational
  it denotes. The arithmetic of \<open>compute_discretization\<close> divides small integers and
  \<open>0.5\<close> by a power of two, which binary floating point does exactly (as long as the
  numerators stay below \<open>2^53\<close>), so the rational model computes the same values.
  Running out of memory on a grid too large to allocate is not modelled.

  \<open>itertools.product(pool, repeat=r)\<close>, as its documentation defines it: starting from
  \<open>[[]]\<close>, each of the \<open>r\<close> pools extends every partial tuple by every element,
  \<open>result = [x+[y] for x in result for y in pool]\<close>.
\<close>

fun product_repeat :: "'a list \<Rightarrow> nat \<Rightarrow> 'a list list" where
  "product_repeat pool 0 = [[]]"
| "product_repeat pool (Suc r) =
     concat (map (\<lambda>x. map (\<lambda>y. x @ [y]) pool) (product_repeat pool r))"

text \<open>
  \<open>np.zeros((rows, cols))\<close>. It also stands for \<open>np.empty\<close>, whose initial contents
  are arbitrary: \<open>compute_discretization\<close> overwrites every row.
\<close>

definition np_zeros :: "nat \<Rightarrow> nat \<Rightarrow> rat list list" where
  "np_zeros rows cols = replicate rows (replicate cols 0)"

text \<open>The row \<open>np.concatenate(([k], np.array(coords) / n + 0.5 / n))\<close>.\<close>

definition discretization_row :: "nat \<Rightarrow> nat \<Rightarrow> nat list \<Rightarrow> rat list" where
  "discretization_row n k coords =
     [of_nat k] @ map (\<lambda>c. of_nat c / of_nat n + (1 / 2) / of_nat n) coords"

text \<open>The loop \<open>for k, coords in enumerate(...): bin_data[k] = ...\<close>.\<close>

fun discretization_loop ::
  "nat \<Rightarrow> (nat \<times> nat list) list \<Rightarrow> rat list list \<Rightarrow> rat list list" where
  "discretization_loop n [] bin_data = bin_data"
| "discretization_loop n ((k, coords) # rest) bin_data =
     discretization_loop n rest (bin_data[k := discretization_row n k coords])"

text \<open>
  The arguments are Python ints. \<open>n_qubits // n_registered\<close> raises on a zero divisor;
  a negative exponent or a negative \<open>n_registered\<close> makes \<open>n\<close> or \<open>n_bins\<close> a float,
  which \<open>np.empty\<close> refuses as a dimension.
\<close>

definition compute_discretization :: "int \<Rightarrow> int \<Rightarrow> py_error + rat list list" where
  "compute_discretization n_qubits n_registered =
     (if n_registered = 0 then Inl ZeroDivisionError
      else if n_qubits div n_registered < 0 \<or> n_registered < 0 then Inl TypeError
      else
        let n = (2::nat) ^ nat (n_qubits div n_registered);
            n_bins = n ^ nat n_registered;
            bin_data = np_zeros n_bins (nat n_registered + 1)
        in Inr (discretization_loop n
                  (enumerate 0 (product_repeat [0..<n] (nat n_registered))) bin_data))"

text \<open>\<open>np.hstack\<close> of two 2-d arrays: the row counts must agree.\<close>

definition np_hstack :: "'a list list \<Rightarrow> 'a list list \<Rightarrow> py_error + 'a list list" where
  "np_hstack a b = (if length a = length b then Inr (map2 (@) a b) else Inl ValueError)"

text \<open>
  The vectorised variant. With a negative exponent \<open>range(n)\<close> raises \<open>TypeError\<close>;
  with a negative \<open>n_registers\<close> it is \<open>product\<close> that raises \<open>ValueError\<close>.
\<close>

definition compute_discretization_efficient :: "int \<Rightarrow> int \<Rightarrow> py_error + rat list list" where
  "compute_discretization_efficient n_qubits n_registers =
     (if n_registers = 0 then Inl ZeroDivisionError
      else if n_qubits div n_registers < 0 then Inl TypeError
      else if n_registers < 0 then Inl ValueError
      else
        let n = (2::nat) ^ nat (n_qubits div n_registers);
            n_bins = n ^ nat n_registers;
            coords = product_repeat [0..<n] (nat n_registers);
            normalized_coords = map (map (\<lambda>c. (of_nat c + 1 / 2) / of_nat n)) coords
        in np_hstack (map (\<lambda>k. [of_nat k]) [0..<n_bins]) normalized_coords)"

section \<open>Transformation.py: samples from a measurement histogram\<close>

text \<open>
  A 2-d result array with its shape, so that an array of no rows still has a column
  count. \<open>results\<close> is an array of counts (\<open>nat\<close>); \<open>bin_data\<close> is a list of rows.
  Only the branch \<open>noisy=False\<close> is modelled: the other one draws random numbers.
  \<open>float32\<close> is the cast \<open>astype(np.float32)\<close>, applied entry by entry.
\<close>

record 'a array2d =
  a2_shape :: "nat \<times> nat"
  a2_rows :: "'a list list"

text \<open>
  The statement \<open>points[position: position + value, :] += np.tile(bin_coords, (value, 1))\<close>.
  The tile has shape \<open>(value, len(bin_coords))\<close>; numpy broadcasts it onto the slice when
  each of its dimensions equals the slice's or is \<open>1\<close>, and raises \<open>ValueError\<close>
  otherwise.
\<close>

definition iadd_tile ::
  "nat \<Rightarrow> nat \<Rightarrow> nat \<Rightarrow> rat list \<Rightarrow> rat list list \<Rightarrow> py_error + rat list list" where
  "iadd_tile n_registers position value bin_coords points =
     (let target = take value (drop position points) in
      if length target \<noteq> value \<and> value \<noteq> 1 then Inl ValueError
      else if length bin_coords = n_registers then
        Inr (take position points @ map (\<lambda>row. map2 (+) row bin_coords) target
               @ drop (position + value) points)
      else if length bin_coords = 1 then
        Inr (take position points @ map (map (\<lambda>x. x + hd bin_coords)) target
               @ drop (position + value) points)
      else Inl ValueError)"

text \<open>
  The loop \<open>for idx, value in enumerate(results)\<close>; \<open>bin_data[idx, 1:]\<close> raises
  \<open>IndexError\<close> past the last row.
\<close>

fun samples_loop ::
  "rat list list \<Rightarrow> nat \<Rightarrow> nat \<Rightarrow> (nat \<times> nat) list \<Rightarrow> rat list list
     \<Rightarrow> py_error + rat list list" where
  "samples_loop bin_data n_registers position [] points = Inr points"
| "samples_loop bin_data n_registers position ((idx, value) # rest) points =
     (if length bin_data \<le> idx then Inl IndexError
      else
        let bin_coords = drop 1 (bin_data ! idx) in
        case iadd_tile n_registers position value bin_coords points of
          Inl e \<Rightarrow> Inl e
        | Inr points' \<Rightarrow> samples_loop bin_data n_registers (position + value) rest points')"

text \<open>
  \<open>width = 1 / len(bin_data) ** (1 / n_registers)\<close> is computed first; without noise
  its value is unused, but it raises \<open>ZeroDivisionError\<close> when \<open>n_registers\<close> is zero
  or \<open>bin_data\<close> has no rows. \<open>np.zeros\<close> refuses a negative dimension.
\<close>

definition generate_samples ::
  "(rat \<Rightarrow> 'b) \<Rightarrow> nat list \<Rightarrow> rat list list \<Rightarrow> int \<Rightarrow> py_error + 'b array2d" where
  "generate_samples float32 results bin_data n_registers =
     (let n_shots = sum_list results in
      if n_registers = 0 \<or> length bin_data = 0 then Inl ZeroDivisionError
      else if n_registers < 0 then Inl ValueError
      else
        case samples_loop bin_data (nat n_registers) 0 (enumerate 0 results)
               (np_zeros n_shots (nat n_registers)) of
          Inl e \<Rightarrow> Inl e
        | Inr points \<Rightarrow>
            Inr \<lparr>a2_shape = (n_shots, nat n_registers), a2_rows = map (map float32) points\<rparr>)"

text \<open>
  \<open>np.repeat(a, repeats, axis=0)\<close>: one count per row, or a single count that is
  broadcast to every row.
\<close>

definition np_repeat :: "'a list \<Rightarrow> nat list \<Rightarrow> py_error + 'a list" where
  "np_repeat a repeats =
     (if length repeats = length a then Inr (concat (map2 replicate repeats a))
      else if length repeats = 1 then Inr (concat (map (replicate (hd repeats)) a))
      else Inl ValueError)"

text \<open>\<open>a.reshape(rows, cols)\<close>: the flat buffer is cut into rows when the sizes agree.\<close>

fun chunks :: "nat \<Rightarrow> nat \<Rightarrow> 'a list \<Rightarrow> 'a list list" where
  "chunks 0 cols xs = []"
| "chunks (Suc rows) cols xs = take cols xs # chunks rows cols (drop cols xs)"

definition np_reshape :: "'a list list \<Rightarrow> nat \<Rightarrow> nat \<Rightarrow> py_error + 'a list list" where
  "np_reshape a rows cols =
     (if length (concat a) = rows * cols then Inr (chunks rows cols (concat a))
      else Inl ValueError)"

definition generate_samples_efficient ::
  "(rat \<Rightarrow> 'b) \<Rightarrow> nat list \<Rightarrow> rat list list \<Rightarrow> int \<Rightarrow> py_error + 'b array2d" where
  "generate_samples_efficient float32 results bin_data n_registers =
     (let n_shots = sum_list results in
      if n_registers = 0 \<or> length bin_data = 0 then Inl ZeroDivisionError
      else if n_registers < 0 then Inl ValueError
      else
        let noise = np_zeros n_shots (nat n_registers);
            bin_coords = map (drop 1) bin_data
        in case np_repeat bin_coords results of
             Inl e \<Rightarrow> Inl e
           | Inr expanded_bin_coords \<Rightarrow>
               (case np_reshape expanded_bin_coords n_shots (nat n_registers) of
                  Inl e \<Rightarrow> Inl e
                | Inr expanded_bin_coords' \<Rightarrow>
                    Inr \<lparr>a2_shape = (n_shots, nat n_registers),
                         a2_rows = map (map float32)
                                     (map2 (map2 (+)) expanded_bin_coords' noise)\<rparr>))"

text \<open>
  Specification side: the sample list as the documentation describes it, the bin-centre
  coordinates \<open>bin_data[idx, 1:]\<close> repeated \<open>results[idx]\<close> times, for each \<open>idx\<close> in
  increasing order.
\<close>

definition expected_samples :: "nat list \<Rightarrow> rat list list \<Rightarrow> rat list list" where
  "expected_samples results bin_data =
     concat (map2 (\<lambda>value row. replicate value (drop 1 row)) results bin_data)"

section \<open>ISING.py: from the exported problem to a quadratic program\<close>

text \<open>
  The problem dict is the export of the modelling library: a list of variable dicts, the
  objective's coefficient list, the sense parameter and a list of constraint dicts. A
  bound is a number or \<open>None\<close>.
\<close>

record variable_dict =
  var_cat :: string
  var_lowBound :: "rat option"
  var_upBound :: "rat option"
  var_name :: string

record coefficient_dict =
  coef_name :: string
  coef_value :: rat

record constraint_dict =
  con_coefficients :: "coefficient_dict list"
  con_sense :: int
  con_constant :: rat
  con_name :: string

record problem_dict =
  variables :: "variable_dict list"
  objective_coefficients :: "coefficient_dict list"
  parameters_sense :: int
  constraints :: "constraint_dict list"

text \<open>
  The \<open>QuadraticProgram\<close> object belongs to the external library. Its state is what
  the calls it accepted have declared, in call order.
\<close>

datatype qp_variable = Binary_var string | Integer_var "rat option" "rat option" string

datatype qp_objective = Maximize "(string \<times> rat) list" | Minimize "(string \<times> rat) list"

record qp_linear_constraint =
  lc_linear :: "(string \<times> rat) list"
  lc_sense :: string
  lc_rhs :: rat
  lc_name :: string

record quadratic_program =
  qp_variables :: "qp_variable list"
  qp_objective :: "qp_objective option"
  qp_constraints :: "qp_linear_constraint list"

definition QuadraticProgram :: quadratic_program where
  "QuadraticProgram = \<lparr>qp_variables = [], qp_objective = None, qp_constraints = []\<rparr>"

text \<open>
  Every call on the program is validated by the library before it takes effect, and a
  rejected call raises. The validation is the library's, so it is a parameter of the
  model: \<open>checks call qp\<close> is the exception that \<open>call\<close> raises on the program \<open>qp\<close>, or
  \<open>None\<close> when the library accepts it.
\<close>

datatype qp_call =
    Call_binary_var string
  | Call_integer_var "rat option" "rat option" string
  | Call_maximize "(string \<times> rat) list"
  | Call_minimize "(string \<times> rat) list"
  | Call_linear_constraint "(string \<times> rat) list" string rat string

type_synonym qp_checks = "qp_call \<Rightarrow> quadratic_program \<Rightarrow> py_error option"

definition binary_var ::
  "qp_checks \<Rightarrow> string \<Rightarrow> quadratic_program \<Rightarrow> py_error + quadratic_program" where
  "binary_var checks name qp =
     (case checks (Call_binary_var name) qp of
        Some e \<Rightarrow> Inl e
      | None \<Rightarrow> Inr (qp\<lparr>qp_variables := qp_variables qp @ [Binary_var name]\<rparr>))"

definition integer_var ::
  "qp_checks \<Rightarrow> rat option \<Rightarrow> rat option \<Rightarrow> string \<Rightarrow> quadratic_program
     \<Rightarrow> py_error + quadratic_program" where
  "integer_var checks lowerbound upperbound name qp =
     (case checks (Call_integer_var lowerbound upperbound name) qp of
        Some e \<Rightarrow> Inl e
      | None \<Rightarrow>
          Inr (qp\<lparr>qp_variables := qp_variables qp @ [Integer_var lowerbound upperbound name]\<rparr>))"

definition maximize ::
  "qp_checks \<Rightarrow> (string \<times> rat) list \<Rightarrow> quadratic_program \<Rightarrow> py_error + quadratic_program" where
  "maximize checks lin qp =
     (case checks (Call_maximize lin) qp of
        Some e \<Rightarrow> Inl e
      | None \<Rightarrow> Inr (qp\<lparr>qp_objective := Some (Maximize lin)\<rparr>))"

definition minimize ::
  "qp_checks \<Rightarrow> (string \<times> rat) list \<Rightarrow> quadratic_program \<Rightarrow> py_error + quadratic_program" where
  "minimize checks lin qp =
     (case checks (Call_minimize lin) qp of
        Some e \<Rightarrow> Inl e
      | None \<Rightarrow> Inr (qp\<lparr>qp_objective := Some (Minimize lin)\<rparr>))"

definition linear_constraint ::
  "qp_checks \<Rightarrow> (string \<times> rat) list \<Rightarrow> string \<Rightarrow> rat \<Rightarrow> string \<Rightarrow> quadratic_program
     \<Rightarrow> py_error + quadratic_program" where
  "linear_constraint checks lin sense rhs name qp =
     (case checks (Call_linear_constraint lin sense rhs name) qp of
        Some e \<Rightarrow> Inl e
      | None \<Rightarrow>
          Inr (qp\<lparr>qp_constraints := qp_constraints qp
                 @ [\<lparr>lc_linear = lin, lc_sense = sense, lc_rhs = rhs, lc_name = name\<rparr>]\<rparr>))"

text \<open>
  The checks of qiskit-optimization that the programs built here can meet, for named
  variables and constraints: a variable or constraint name that is already taken is
  refused with \<open>QiskitOptimizationError\<close>; \<open>integer_var\<close> compares its bounds, which
  raises \<open>TypeError\<close> when one is \<open>None\<close>, and refuses a lower bound above the upper
  one; a coefficient dict that names a variable the program does not have raises
  \<open>KeyError\<close>.
\<close>

definition declared_names :: "quadratic_program \<Rightarrow> string list" where
  "declared_names qp =
     map (\<lambda>v. case v of Binary_var name \<Rightarrow> name | Integer_var lb ub name \<Rightarrow> name)
       (qp_variables qp)"

definition names_undeclared :: "(string \<times> rat) list \<Rightarrow> quadratic_program \<Rightarrow> bool" where
  "names_undeclared lin qp = list_ex (\<lambda>name. \<not> List.member (declared_names qp) name) (map fst lin)"

definition qiskit_checks :: qp_checks where
  "qiskit_checks call qp =
     (case call of
        Call_binary_var name \<Rightarrow>
          if List.member (declared_names qp) name then Some QiskitOptimizationError else None
      | Call_integer_var lb ub name \<Rightarrow>
          if List.member (declared_names qp) name then Some QiskitOptimizationError
          else (case lb of
                  None \<Rightarrow> Some TypeError
                | Some l \<Rightarrow>
                    (case ub of
                       None \<Rightarrow> Some TypeError
                     | Some u \<Rightarrow> if u < l then Some QiskitOptimizationError else None))
      | Call_maximize lin \<Rightarrow> if names_undeclared lin qp then Some KeyError else None
      | Call_minimize lin \<Rightarrow> if names_undeclared lin qp then Some KeyError else None
      | Call_linear_constraint lin sense rhs name \<Rightarrow>
          if List.member (map lc_name (qp_constraints qp)) name then Some QiskitOptimizationError
          else if names_undeclared lin qp then Some KeyError
          else None)"

text \<open>
  The loop over \<open>problem["variables"]\<close>. An exception raised by a call ends the loop and
  the function.
\<close>

fun add_variables ::
  "qp_checks \<Rightarrow> variable_dict list \<Rightarrow> quadratic_program \<Rightarrow> py_error + quadratic_program" where
  "add_variables checks [] qp = Inr qp"
| "add_variables checks (variable_dict # rest) qp =
     (if var_cat variable_dict = ''Integer'' then
        let lb = var_lowBound variable_dict;
            ub = var_upBound variable_dict;
            name = var_name variable_dict
        in case (if lb = Some 0 \<and> ub = Some 1 then binary_var checks name qp
                 else integer_var checks lb ub name qp) of
             Inl e \<Rightarrow> Inl e
           | Inr qp' \<Rightarrow> add_variables checks rest qp'
      else add_variables checks rest qp)"

text \<open>The loops \<open>for arg in ...: arguments[arg["name"]] = arg["value"]\<close>.\<close>

fun collect_arguments ::
  "coefficient_dict list \<Rightarrow> (string \<times> rat) list \<Rightarrow> (string \<times> rat) list" where
  "collect_arguments [] arguments = arguments"
| "collect_arguments (arg # rest) arguments =
     collect_arguments rest (AList.update (coef_name arg) (coef_value arg) arguments)"

text \<open>The loop over \<open>problem["constraints"]\<close>.\<close>

fun add_constraints ::
  "qp_checks \<Rightarrow> constraint_dict list \<Rightarrow> quadratic_program \<Rightarrow> py_error + quadratic_program" where
  "add_constraints checks [] qp = Inr qp"
| "add_constraints checks (constraint # rest) qp =
     (let const_arguments = collect_arguments (con_coefficients constraint) [];
          sense = con_sense constraint;
          const_sense = (if sense = - 1 then ''LE'' else if sense = 1 then ''GE'' else ''E'')
      in case linear_constraint checks const_arguments const_sense
                (- 1 * con_constant constraint) (con_name constraint) qp of
           Inl e \<Rightarrow> Inl e
         | Inr qp' \<Rightarrow> add_constraints checks rest qp')"

definition map_pulp_to_qiskit ::
  "qp_checks \<Rightarrow> problem_dict \<Rightarrow> py_error + quadratic_program" where
  "map_pulp_to_qiskit checks problem =
     (case add_variables checks (variables problem) QuadraticProgram of
        Inl e \<Rightarrow> Inl e
      | Inr qp \<Rightarrow>
          let obj_arguments = collect_arguments (objective_coefficients problem) [] in
          case (if parameters_sense problem = - 1 then maximize checks obj_arguments qp
                else minimize checks obj_arguments qp) of
            Inl e \<Rightarrow> Inl e
          | Inr qp' \<Rightarrow> add_constraints checks (constraints problem) qp')"

section \<open>ISING.py: from the Ising operator to the matrices J and t\<close>

text \<open>\<open>list(locate(pauli_str_list, lambda a: a == 'Z'))\<close>: the positions of \<open>Z\<close>.\<close>

definition locate_Z :: "string \<Rightarrow> nat list" where
  "locate_Z pauli_str = map fst (filter (\<lambda>(i, a). a = CHR ''Z'') (enumerate 0 pauli_str))"

text \<open>
  What the external library hands back: the QUBO's variable names and the operator. The
  operator is either a sum operator, which can be iterated and yields for each term the
  pair \<open>(pauli_str, coeff)\<close> of \<open>i.primitive.to_list()[0]\<close>, or a single Pauli operator
  (one term, or the identity), which cannot be iterated. Both know their number of
  qubits.
\<close>

datatype qubit_operator =
    PauliSumOp nat "(string \<times> complex) list"
  | PauliOp nat string complex

fun num_qubits :: "qubit_operator \<Rightarrow> nat" where
  "num_qubits (PauliSumOp n terms) = n"
| "num_qubits (PauliOp n pauli_str coeff) = n"

record qubo_ising =
  qubo_variables :: "string list"
  qubitOp :: qubit_operator

record ising_dict =
  J :: "complex list list"
  t :: "complex list"

text \<open>
  The body of the loop \<open>for i in qubitOp\<close>, over the terms of a sum operator. An index
  past the end of a numpy array raises \<open>IndexError\<close>.
\<close>

fun ising_loop ::
  "(string \<times> complex) list \<Rightarrow> complex list \<Rightarrow> complex list list
     \<Rightarrow> py_error + (complex list \<times> complex list list)" where
  "ising_loop [] t_matrix j_matrix = Inr (t_matrix, j_matrix)"
| "ising_loop ((pauli_str, coeff) # rest) t_matrix j_matrix =
     (let index_pos_list = locate_Z pauli_str in
      if length index_pos_list = 1 then
        (if index_pos_list ! 0 < length t_matrix
         then ising_loop rest (t_matrix[index_pos_list ! 0 := coeff]) j_matrix
         else Inl IndexError)
      else if length index_pos_list = 2 then
        (if index_pos_list ! 0 < length j_matrix
            \<and> index_pos_list ! 1 < length (j_matrix ! (index_pos_list ! 0))
         then ising_loop rest t_matrix
                (j_matrix[index_pos_list ! 0 :=
                   (j_matrix ! (index_pos_list ! 0))[index_pos_list ! 1 := coeff]])
         else Inl IndexError)
      else ising_loop rest t_matrix j_matrix)"

text \<open>
  \<open>Ising.map\<close>. The conversion to a QUBO and on to the operator is the library's:
  \<open>to_qubo_to_ising\<close> is a parameter and may raise. Iterating a single Pauli operator
  raises \<open>TypeError\<close>. The result pairs the returned dict with the new value of
  \<open>self.global_variables\<close>; the elapsed time is left out, and so is the state an
  exception leaves behind.
\<close>

definition Ising_map ::
  "qp_checks \<Rightarrow> (quadratic_program \<Rightarrow> py_error + qubo_ising) \<Rightarrow> problem_dict
     \<Rightarrow> py_error + (ising_dict \<times> string list)" where
  "Ising_map checks to_qubo_to_ising problem =
     (case map_pulp_to_qiskit checks problem of
        Inl e \<Rightarrow> Inl e
      | Inr qp \<Rightarrow>
          (case to_qubo_to_ising qp of
             Inl e \<Rightarrow> Inl e
           | Inr conv \<Rightarrow>
               let variables = qubo_variables conv;
                   n = num_qubits (qubitOp conv);
                   t_matrix = replicate n 0;
                   j_matrix = replicate n (replicate n 0)
               in case qubitOp conv of
                    PauliOp m pauli_str coeff \<Rightarrow> Inl TypeError
                  | PauliSumOp m terms \<Rightarrow>
                      (case ising_loop terms t_matrix j_matrix of
                         Inl e \<Rightarrow> Inl e
                       | Inr (t_matrix', j_matrix') \<Rightarrow>
                           Inr (\<lparr>J = j_matrix', t = t_matrix'\<rparr>, variables))))"

text \<open>
  For the proofs: the value a cell holds after the loop, the coefficient of the last term
  whose \<open>Z\<close> positions are exactly \<open>pos\<close>, or the initial value \<open>d\<close>.
\<close>

fun last_coeff :: "nat list \<Rightarrow> (string \<times> complex) list \<Rightarrow> complex \<Rightarrow> complex" where
  "last_coeff pos [] d = d"
| "last_coeff pos ((pauli_str, coeff) # rest) d =
     last_coeff pos rest (if locate_Z pauli_str = pos then coeff else d)"

section \<open>ISING.py: \<open>Ising._convert_ising_to_qubo\<close>\<close>

text \<open>
  A numpy array of any shape is its shape together with its flat element buffer, which
  is what \<open>np.nditer\<close> walks over; the buffer is empty exactly when a dimension is zero.
  \<open>np.array(solution)\<close> copies its argument, so the caller's array is untouched. The
  elements are of any numeric type with \<open>0\<close> and \<open>-1\<close>.
\<close>

record 'a ndarray =
  nd_shape :: "nat list"
  nd_data :: "'a list"

text \<open>The body of the \<open>for x in it\<close> loop, element by element.\<close>

primrec nditer_readwrite :: "'a::ring_1 list \<Rightarrow> 'a list" where
  "nditer_readwrite [] = []"
| "nditer_readwrite (x # xs) = (if x = - 1 then 0 else x) # nditer_readwrite xs"

text \<open>
  \<open>np.nditer\<close> is created without the flag \<open>zerosize_ok\<close>, so it raises \<open>ValueError\<close>
  on an array of no elements.
\<close>

definition convert_ising_to_qubo :: "'a::ring_1 ndarray \<Rightarrow> py_error + 'a ndarray" where
  "convert_ising_to_qubo solution =
     (if nd_data solution = [] then Inl ValueError
      else Inr (solution\<lparr>nd_data := nditer_readwrite (nd_data solution)\<rparr>))"

section \<open>HelperClass.py\<close>

text \<open>
  An instance is its attribute dict. \<open>__init__\<close> first runs the constructor of the
  base class on the instance, with \<open>device_name\<close>, and then sets \<open>self.device\<close>.
\<close>

definition HelperClass_init ::
  "(string \<Rightarrow> py_object \<Rightarrow> py_error + py_object) \<Rightarrow> string \<Rightarrow> py_object
     \<Rightarrow> py_error + py_object" where
  "HelperClass_init super_init device_name self =
     (case super_init device_name self of
        Inl e \<Rightarrow> Inl e
      | Inr self' \<Rightarrow> Inr (AList.update ''device'' (PyStr device_name) self'))"



section \<open>Example inputs\<close>

text \<open>
  A small exported problem with a binary variable, a continuous one and a bounded integer
  one, and a three-qubit sum operator with one single-\<open>Z\<close> term, one two-\<open>Z\<close> term and an
  identity term.
\<close>

definition example_problem :: problem_dict where
  "example_problem =
     \<lparr>variables =
        [\<lparr>var_cat = ''Integer'', var_lowBound = Some 0, var_upBound = Some 1, var_name = ''x_0''\<rparr>,
         \<lparr>var_cat = ''Continuous'', var_lowBound = None, var_upBound = None, var_name = ''y''\<rparr>,
         \<lparr>var_cat = ''Integer'', var_lowBound = Some 0, var_upBound = Some 3, var_name = ''x_1''\<rparr>],
      objective_coefficients =
        [\<lparr>coef_name = ''x_0'', coef_value = 2\<rparr>, \<lparr>coef_name = ''x_1'', coef_value = 1\<rparr>],
      parameters_sense = - 1,
      constraints =
        [\<lparr>con_coefficients = [\<lparr>coef_name = ''x_0'', coef_value = 1\<rparr>], con_sense = - 1,
          con_constant = - 1, con_name = ''c0''\<rparr>]\<rparr>"

definition example_conv :: qubo_ising where
  "example_conv =
     \<lparr>qubo_variables = [''x_0'', ''x_1@0'', ''x_1@1''],
      qubitOp = PauliSumOp 3 [(''IZI'', 2), (''ZIZ'', 3), (''III'', 5)]\<rparr>"



definition problem_single_binary :: problem_dict where
  "problem_single_binary =
     \<lparr>variables =
        [\<lparr>var_cat = ''Integer'', var_lowBound = Some 0, var_upBound = Some 1, var_name = ''x_0''\<rparr>],
      objective_coefficients = [\<lparr>coef_name = ''x_0'', coef_value = 1\<rparr>],
      parameters_sense = 1,
      constraints = []\<rparr>"

definition conv_single_term :: qubo_ising where
  "conv_single_term = \<lparr>qubo_variables = [''x_0''], qubitOp = PauliOp 1 ''Z'' (- (1 / 2))\<rparr>"

definition conv_repeated_term :: qubo_ising where
  "conv_repeated_term =
     \<lparr>qubo_variables = [''x_0'', ''x_1''],
      qubitOp = PauliSumOp 2 [(''ZI'', 1), (''ZI'', 2)]\<rparr>"

section \<open>Closed forms used in the proofs\<close>



section \<open>Properties of \<open>itertools.product\<close> and the discretization loop\<close>

lemma length_product_repeat: "length (product_repeat pool r) = length pool ^ r"
proof (induction r)
  case 0
  then show ?case by simp
next
  case (Suc r)
  have "length (concat (map (\<lambda>x. map (\<lambda>y. x @ [y]) pool) xs)) = length xs * length pool" for xs :: "'a list list"
    by (induction xs) simp_all
  with Suc show ?case by simp
qed

lemma length_in_product_repeat: "xs \<in> set (product_repeat pool r) \<Longrightarrow> length xs = r"
  by (induction r arbitrary: xs) auto

lemma nth_concat_uniform:
  assumes "\<And>x. x \<in> set xs \<Longrightarrow> length (f x) = n" and "k < length xs * n"
  shows "concat (map f xs) ! k = f (xs ! (k div n)) ! (k mod n)"
  using assms
proof (induction xs arbitrary: k)
  case Nil
  then show ?case by simp
next
  case (Cons x xs)
  have n: "0 < n" using Cons.prems(2) by (cases n) auto
  show ?case
  proof (cases "k < n")
    case True
    then show ?thesis using Cons.prems(1)[of x] by (simp add: nth_append)
  next
    case False
    then have kn: "n \<le> k" by simp
    have lt: "k - n < length xs * n" using Cons.prems(2) kn by simp
    have d: "k div n = Suc ((k - n) div n)" using kn n
      by (metis Suc_eq_plus1 div_add_self2 le_add_diff_inverse2 less_numeral_extra(3))
    have m: "k mod n = (k - n) mod n" using kn by (simp add: le_mod_geq)
    have "concat (map f (x # xs)) ! k = concat (map f xs) ! (k - n)"
      using False Cons.prems(1)[of x] by (simp add: nth_append)
    also have "\<dots> = f (xs ! ((k - n) div n)) ! ((k - n) mod n)"
      using Cons.IH[OF _ lt] Cons.prems(1) by simp
    finally show ?thesis by (simp add: d m)
  qed
qed

lemma nth_product_repeat_Suc:
  assumes "k < length pool ^ Suc r"
  shows "product_repeat pool (Suc r) ! k
         = product_repeat pool r ! (k div length pool) @ [pool ! (k mod length pool)]"
proof -
  have pos: "0 < length pool" using assms by (cases "length pool") auto
  have k: "k < length (product_repeat pool r) * length pool"
    using assms by (simp add: length_product_repeat mult.commute)
  have "product_repeat pool (Suc r) ! k
        = map (\<lambda>y. (product_repeat pool r ! (k div length pool)) @ [y]) pool ! (k mod length pool)"
    unfolding product_repeat.simps
    by (rule nth_concat_uniform[OF _ k]) simp
  also have "\<dots> = product_repeat pool r ! (k div length pool) @ [pool ! (k mod length pool)]"
    using pos by simp
  finally show ?thesis .
qed

lemma nth_product_repeat_digit:
  "k < n ^ r \<Longrightarrow> i < r \<Longrightarrow>
     product_repeat [0..<n] r ! k ! i = (k div n ^ (r - 1 - i)) mod n"
proof (induction r arbitrary: k i)
  case 0
  then show ?case by simp
next
  case (Suc r)
  have pos: "0 < n" using Suc.prems(1) by (cases n) auto
  have kd: "k div n < n ^ r" using Suc.prems(1) pos
    by (simp add: less_mult_imp_div_less mult.commute)
  have len: "length (product_repeat [0..<n] r ! (k div n)) = r"
    using kd by (intro length_in_product_repeat[of _ "[0..<n]"]) (simp add: length_product_repeat)
  have step: "product_repeat [0..<n] (Suc r) ! k
              = product_repeat [0..<n] r ! (k div n) @ [[0..<n] ! (k mod n)]"
    using nth_product_repeat_Suc[of k "[0..<n]" r] Suc.prems(1) by simp
  show ?case
  proof (cases "i < r")
    case True
    have "product_repeat [0..<n] (Suc r) ! k ! i = product_repeat [0..<n] r ! (k div n) ! i"
      using True len by (simp del: product_repeat.simps add: step nth_append)
    also have "\<dots> = (k div n div n ^ (r - 1 - i)) mod n"
      using Suc.IH[OF kd True] .
    also have "\<dots> = (k div n ^ (Suc r - 1 - i)) mod n"
    proof -
      have "Suc r - 1 - i = Suc (r - 1 - i)" using True by simp
      then show ?thesis by (simp add: div_mult2_eq)
    qed
    finally show ?thesis .
  next
    case False
    then have "i = r" using Suc.prems(2) by simp
    then show ?thesis using len pos by (simp del: product_repeat.simps add: step nth_append)
  qed
qed

lemma in_product_repeat_bound:
  "xs \<in> set (product_repeat [0..<n] r) \<Longrightarrow> c \<in> set xs \<Longrightarrow> c < n"
  by (induction r arbitrary: xs) auto

lemma length_discretization_loop:
  "length (discretization_loop n kcs bin_data) = length bin_data"
  by (induction n kcs bin_data rule: discretization_loop.induct) simp_all

lemma discretization_loop_enumerate:
  "i + length xs \<le> length b \<Longrightarrow>
     discretization_loop n (enumerate i xs) b
       = take i b @ map (\<lambda>(k, c). discretization_row n k c) (enumerate i xs)
           @ drop (i + length xs) b"
proof (induction xs arbitrary: i b)
  case Nil
  then show ?case by simp
next
  case (Cons x xs)
  let ?b = "b[i := discretization_row n i x]"
  have i: "i < length b" using Cons.prems by simp
  have "discretization_loop n (enumerate i (x # xs)) b
        = discretization_loop n (enumerate (Suc i) xs) ?b" by simp
  also have "\<dots> = take (Suc i) ?b @ map (\<lambda>(k, c). discretization_row n k c) (enumerate (Suc i) xs)
                     @ drop (Suc i + length xs) ?b"
    using Cons.prems by (intro Cons.IH) simp
  also have "take (Suc i) ?b = take i b @ [discretization_row n i x]"
    using i by (simp add: take_Suc_conv_app_nth)
  also have "drop (Suc i + length xs) ?b = drop (i + length (x # xs)) b"
    by simp
  finally show ?case by simp
qed

lemma compute_discretization_closed:
  assumes "1 \<le> n_qubits" and "1 \<le> n_registered"
  shows "compute_discretization n_qubits n_registered
         = Inr (map (\<lambda>(k, c). discretization_row (2 ^ nat (n_qubits div n_registered)) k c)
                 (enumerate 0 (product_repeat [0..<2 ^ nat (n_qubits div n_registered)]
                    (nat n_registered))))"
proof -
  let ?n = "(2::nat) ^ nat (n_qubits div n_registered)"
  let ?r = "nat n_registered"
  let ?P = "product_repeat [0..<?n] ?r"
  have "0 \<le> n_qubits div n_registered"
    using assms pos_imp_zdiv_nonneg_iff[of n_registered n_qubits] by simp
  then have e: "\<not> n_qubits div n_registered < 0" by simp
  have len: "0 + length ?P \<le> length (np_zeros (?n ^ ?r) (?r + 1))"
    by (simp add: length_product_repeat np_zeros_def)
  have "discretization_loop ?n (enumerate 0 ?P) (np_zeros (?n ^ ?r) (?r + 1))
        = map (\<lambda>(k, c). discretization_row ?n k c) (enumerate 0 ?P)"
    using discretization_loop_enumerate[OF len, of ?n]
    by (simp add: length_product_repeat np_zeros_def)
  then show ?thesis
    using assms e by (simp add: compute_discretization_def Let_def)
qed

lemma compute_discretization_efficient_closed:
  assumes "1 \<le> n_qubits" and "1 \<le> n_registers"
  shows "compute_discretization_efficient n_qubits n_registers
         = Inr (map (\<lambda>(k, c). [of_nat k] @ map (\<lambda>c. (of_nat c + 1 / 2) / of_nat (2 ^ nat (n_qubits div n_registers))) c)
                 (enumerate 0 (product_repeat [0..<2 ^ nat (n_qubits div n_registers)]
                    (nat n_registers))))"
proof -
  let ?n = "(2::nat) ^ nat (n_qubits div n_registers)"
  let ?r = "nat n_registers"
  let ?P = "product_repeat [0..<?n] ?r"
  let ?g = "\<lambda>c::nat. (of_nat c + 1 / 2) / (of_nat ?n :: rat)"
  have "0 \<le> n_qubits div n_registers"
    using assms pos_imp_zdiv_nonneg_iff[of n_registers n_qubits] by simp
  then have e: "\<not> n_qubits div n_registers < 0" by simp
  have "map2 (@) (map (\<lambda>k. [of_nat k :: rat]) [0..<?n ^ ?r]) (map (map ?g) ?P)
        = map (\<lambda>(k, c). [of_nat k] @ map ?g c) (zip [0..<?n ^ ?r] ?P)"
    by (auto simp: zip_map_map)
  also have "zip [0..<?n ^ ?r] ?P = enumerate 0 ?P"
    by (simp add: enumerate_eq_zip length_product_repeat)
  finally have h: "map2 (@) (map (\<lambda>k. [of_nat k :: rat]) [0..<?n ^ ?r]) (map (map ?g) ?P)
        = map (\<lambda>(k, c). [of_nat k] @ map ?g c) (enumerate 0 ?P)" .
  show ?thesis
    using assms e h
    by (simp add: compute_discretization_efficient_def Let_def np_hstack_def length_product_repeat)
qed

lemma discretization_row_eq:
  "discretization_row n k c = of_nat k # map (\<lambda>c. (of_nat c + 1 / 2) / of_nat n) c"
  by (simp add: discretization_row_def add_divide_distrib)

lemma coord_in_unit_interval:
  assumes "c < n"
  shows "0 < (of_nat c + 1 / 2) / (of_nat n :: rat) \<and> (of_nat c + 1 / 2) / (of_nat n :: rat) < 1"
proof -
  have n: "0 < (of_nat n :: rat)" using assms by simp
  have "of_nat c + 1 \<le> (of_nat n :: rat)"
    using assms by (metis Suc_leI of_nat_Suc of_nat_le_iff add.commute)
  then have "(of_nat c + 1 / 2) < (of_nat n :: rat)" by simp
  moreover have "0 < (of_nat c + 1 / 2 :: rat)" by (simp add: add_nonneg_pos)
  ultimately show ?thesis using n by simp
qed

lemma sorted_product_repeat:
  assumes "sorted_wrt (\<lambda>a b. (a, b) \<in> r) pool"
  shows "sorted_wrt (\<lambda>a b. (a, b) \<in> lexord r) (product_repeat pool m)"
proof (induction m)
  case 0
  then show ?case by simp
next
  case (Suc m)
  have inner: "sorted_wrt (\<lambda>a b. (a, b) \<in> lexord r) (map (\<lambda>y. x @ [y]) pool)" for x
  proof -
    have "(x @ [a], x @ [b]) \<in> lexord r" if "(a, b) \<in> r" for a b
      using that by (intro lexord_append_leftI) simp
    then show ?thesis
      using sorted_wrt_mono_rel[OF _ assms, of "\<lambda>a b. (x @ [a], x @ [b]) \<in> lexord r"]
      by (simp add: sorted_wrt_map)
  qed
  have "sorted_wrt (\<lambda>a b. (a, b) \<in> lexord r) (concat (map (\<lambda>x. map (\<lambda>y. x @ [y]) pool) xs))"
    if "sorted_wrt (\<lambda>a b. (a, b) \<in> lexord r) xs" and "\<And>x. x \<in> set xs \<Longrightarrow> length x = m"
    for xs
    using that
  proof (induction xs)
    case Nil
    then show ?case by simp
  next
    case (Cons x xs)
    have "(x @ [y], x' @ [y']) \<in> lexord r" if "x' \<in> set xs" for x' y y'
    proof -
      have "(x, x') \<in> lexord r" using Cons.prems(1) that by simp
      moreover have "length x' \<le> length x" using Cons.prems(2) that by simp
      ultimately show ?thesis by (rule lexord_sufI)
    qed
    then show ?case
      using Cons inner[of x] by (auto simp: sorted_wrt_append)
  qed
  then show ?case
    using Suc length_in_product_repeat[of _ pool m] by simp
qed

lemma compute_discretization_2_1:
  "compute_discretization 2 1 = Inr [[0, 1 / 8], [1, 3 / 8], [2, 5 / 8], [3, 7 / 8]]"
  by code_simp

lemma compute_discretization_2_2:
  "compute_discretization 2 2 = Inr [[0, 1 / 4, 1 / 4], [1, 1 / 4, 3 / 4], [2, 3 / 4, 1 / 4], [3, 3 / 4, 3 / 4]]"
  by code_simp

section \<open>The two discretizations agree\<close>

text \<open>
  Claim C1. For every \<open>n_qubits \<ge> 1\<close> and \<open>n_registers \<ge> 1\<close>,
  \<open>compute_discretization\<close> and \<open>compute_discretization_efficient\<close> return equal
  arrays: both return, and they return the same rows with the same entries.
\<close>

theorem compute_discretization_efficient_eq:
  assumes "1 \<le> n_qubits" and "1 \<le> n_registers"
  shows "\<exists>bin_data. compute_discretization n_qubits n_registers = Inr bin_data
           \<and> compute_discretization_efficient n_qubits n_registers = Inr bin_data"
proof -
  have "discretization_row n k c = [of_nat k] @ map (\<lambda>c. (of_nat c + 1 / 2) / of_nat n) c"
    for n k c
    by (simp add: discretization_row_def add_divide_distrib)
  then show ?thesis
    using compute_discretization_closed[OF assms] compute_discretization_efficient_closed[OF assms]
    by simp
qed

theorem compute_discretization_efficient_eq_witness:
  "(1::int) \<le> 2 \<and> (1::int) \<le> 1
   \<and> compute_discretization 2 1 = Inr [[0, 1 / 8], [1, 3 / 8], [2, 5 / 8], [3, 7 / 8]]
   \<and> compute_discretization_efficient 2 1 = Inr [[0, 1 / 8], [1, 3 / 8], [2, 5 / 8], [3, 7 / 8]]"
  using compute_discretization_efficient_eq[of 2 1] compute_discretization_2_1
  by simp

section \<open>The discretization is the grid of bin centres\<close>

text \<open>
  Claim C3. For every \<open>n_qubits \<ge> 1\<close> and \<open>n_registered \<ge> 1\<close>, with
  \<open>n = 2 ^ (n_qubits div n_registered)\<close> and \<open>r = n_registered\<close>,
  \<open>compute_discretization\<close> returns an array of \<open>n ^ r\<close> rows of length \<open>r + 1\<close>.
  Row \<open>k\<close> starts with \<open>k\<close>, followed by \<open>(c + 0.5) / n\<close> for each entry \<open>c\<close> of the
  \<open>k\<close>-th tuple of \<open>product(range(n), repeat=r)\<close>. That tuple is the \<open>k\<close>-th in
  lexicographic order: its \<open>i\<close>-th entry is digit \<open>i\<close> of \<open>k\<close> written in base \<open>n\<close>
  with \<open>r\<close> digits, most significant first, and the list of tuples is strictly
  increasing in the lexicographic order. Every coordinate lies strictly between 0 and 1.
\<close>

theorem compute_discretization_grid:
  assumes "1 \<le> n_qubits" and "1 \<le> n_registered"
  shows "let n = 2 ^ nat (n_qubits div n_registered); r = nat n_registered in
    \<exists>bin_data. compute_discretization n_qubits n_registered = Inr bin_data
      \<and> length bin_data = n ^ r
      \<and> (\<forall>k < n ^ r.
            length (bin_data ! k) = r + 1
          \<and> bin_data ! k
              = of_nat k # map (\<lambda>c. (of_nat c + 1 / 2) / of_nat n) (product_repeat [0..<n] r ! k)
          \<and> (\<forall>i < r. product_repeat [0..<n] r ! k ! i = (k div n ^ (r - 1 - i)) mod n
                \<and> 0 < bin_data ! k ! Suc i \<and> bin_data ! k ! Suc i < 1))
      \<and> sorted_wrt (\<lambda>a b. (a, b) \<in> lexord {(x, y). x < y}) (product_repeat [0..<n] r)"
proof -
  define n :: nat where "n = 2 ^ nat (n_qubits div n_registered)"
  define r where "r = nat n_registered"
  define P where "P = product_repeat [0..<n] r"
  define bin_data where "bin_data = map (\<lambda>(k, c). discretization_row n k c) (enumerate 0 P)"
  have npos: "0 < n" by (simp add: n_def)
  have cd: "compute_discretization n_qubits n_registered = Inr bin_data"
    using compute_discretization_closed[OF assms] by (simp add: bin_data_def P_def n_def r_def)
  have lenP: "length P = n ^ r" by (simp add: P_def length_product_repeat)
  have len: "length bin_data = n ^ r" by (simp add: bin_data_def lenP)
  have row: "bin_data ! k = of_nat k # map (\<lambda>c. (of_nat c + 1 / 2) / of_nat n) (P ! k)"
    if "k < n ^ r" for k
    using that by (simp add: bin_data_def lenP nth_enumerate_eq discretization_row_eq)
  have lenrow: "length (P ! k) = r" if "k < n ^ r" for k
    using that lenP length_in_product_repeat[of "P ! k" "[0..<n]" r] by (simp add: P_def)
  have digit: "P ! k ! i = (k div n ^ (r - 1 - i)) mod n" if "k < n ^ r" "i < r" for k i
    using that by (simp add: P_def nth_product_repeat_digit)
  have bounds: "0 < bin_data ! k ! Suc i \<and> bin_data ! k ! Suc i < 1" if "k < n ^ r" "i < r" for k i
  proof -
    have "P ! k ! i < n" using digit[OF that] npos by simp
    then show ?thesis
      using coord_in_unit_interval[of "P ! k ! i" n] that lenrow[OF that(1)]
      by (simp add: row)
  qed
  have srt: "sorted_wrt (\<lambda>a b. (a, b) \<in> lexord {(x, y). x < y}) P"
    unfolding P_def by (rule sorted_product_repeat) (simp add: sorted_wrt_iff_nth_less)
  have "\<exists>bin_data. compute_discretization n_qubits n_registered = Inr bin_data
      \<and> length bin_data = n ^ r
      \<and> (\<forall>k < n ^ r.
            length (bin_data ! k) = r + 1
          \<and> bin_data ! k
              = of_nat k # map (\<lambda>c. (of_nat c + 1 / 2) / of_nat n) (P ! k)
          \<and> (\<forall>i < r. P ! k ! i = (k div n ^ (r - 1 - i)) mod n
                \<and> 0 < bin_data ! k ! Suc i \<and> bin_data ! k ! Suc i < 1))
      \<and> sorted_wrt (\<lambda>a b. (a, b) \<in> lexord {(x, y). x < y}) P"
    using cd len row lenrow digit bounds srt by (intro exI[of _ bin_data]) simp
  then show ?thesis
    unfolding Let_def P_def n_def r_def .
qed

theorem compute_discretization_grid_witness:
  "(1::int) \<le> 2 \<and> (1::int) \<le> 2
   \<and> (\<exists>bin_data. compute_discretization 2 2 = Inr bin_data \<and> length bin_data = 4
        \<and> bin_data ! 2 = [2, 3 / 4, 1 / 4])"
  using compute_discretization_grid[of 2 2] compute_discretization_2_2
  by simp

section \<open>Properties of the sample loops\<close>

lemma length_expected_samples:
  "length results \<le> length bin_data \<Longrightarrow> length (expected_samples results bin_data) = sum_list results"
  unfolding expected_samples_def
proof (induction results arbitrary: bin_data)
  case Nil
  then show ?case by simp
next
  case (Cons v vs)
  then show ?case by (cases bin_data) simp_all
qed

lemma map2_add_zeros: "length bc = n \<Longrightarrow> map2 (+) (replicate n (0::rat)) bc = bc"
proof (induction bc arbitrary: n)
  case Nil
  then show ?case by simp
next
  case (Cons x xs)
  then show ?case by (cases n) simp_all
qed

lemma map2_add_zeros_right: "length bc = n \<Longrightarrow> map2 (+) bc (replicate n (0::rat)) = bc"
proof (induction bc arbitrary: n)
  case Nil
  then show ?case by simp
next
  case (Cons x xs)
  then show ?case by (cases n) simp_all
qed

lemma iadd_tile_zeros:
  assumes "length bin_coords = n" and "length pre = p"
  shows "iadd_tile n p v bin_coords (pre @ np_zeros (v + m) n)
         = Inr ((pre @ replicate v bin_coords) @ np_zeros m n)"
proof -
  have t: "take v (drop p (pre @ np_zeros (v + m) n)) = replicate v (replicate n 0)"
    using assms(2) by (simp add: np_zeros_def replicate_add)
  have d: "drop (p + v) (pre @ np_zeros (v + m) n) = np_zeros m n"
    using assms(2) by (simp add: np_zeros_def)
  have k: "take p (pre @ np_zeros (v + m) n) = pre"
    using assms(2) by simp
  have "map (\<lambda>row. map2 (+) row bin_coords) (replicate v (replicate n 0)) = replicate v bin_coords"
    using assms(1) by (simp add: map2_add_zeros)
  then show ?thesis
    unfolding iadd_tile_def Let_def t d k using assms(1) by simp
qed

lemma samples_loop_closed:
  assumes "i + length rs \<le> length bin_data"
    and "\<forall>row \<in> set bin_data. length row = n + 1"
    and "length pre = p"
  shows "samples_loop bin_data n p (enumerate i rs) (pre @ np_zeros (sum_list rs) n)
         = Inr (pre @ expected_samples rs (drop i bin_data))"
  using assms
proof (induction rs arbitrary: i p pre)
  case Nil
  then show ?case by (simp add: np_zeros_def expected_samples_def)
next
  case (Cons v rs)
  have i: "i < length bin_data" using Cons.prems(1) by simp
  then have "length (bin_data ! i) = n + 1" using Cons.prems(2) by simp
  then have bc: "length (drop 1 (bin_data ! i)) = n" by simp
  have step: "iadd_tile n p v (drop 1 (bin_data ! i)) (pre @ np_zeros (v + sum_list rs) n)
              = Inr ((pre @ replicate v (drop 1 (bin_data ! i))) @ np_zeros (sum_list rs) n)"
    by (rule iadd_tile_zeros[OF bc Cons.prems(3)])
  have ih: "samples_loop bin_data n (p + v) (enumerate (Suc i) rs)
              ((pre @ replicate v (drop 1 (bin_data ! i))) @ np_zeros (sum_list rs) n)
            = Inr ((pre @ replicate v (drop 1 (bin_data ! i))) @ expected_samples rs (drop (Suc i) bin_data))"
    using Cons.prems by (intro Cons.IH) simp_all
  have dr: "drop i bin_data = bin_data ! i # drop (Suc i) bin_data"
    using i by (simp add: Cons_nth_drop_Suc)
  have "expected_samples (v # rs) (drop i bin_data)
        = replicate v (drop 1 (bin_data ! i)) @ expected_samples rs (drop (Suc i) bin_data)"
    unfolding dr by (simp add: expected_samples_def)
  then show ?case
    using i step ih by simp
qed

lemma generate_samples_closed:
  assumes "length results \<le> length bin_data"
    and "bin_data \<noteq> []"
    and "\<forall>row \<in> set bin_data. length row = nat n_registers + 1"
    and "1 \<le> n_registers"
  shows "generate_samples float32 results bin_data n_registers
         = Inr \<lparr>a2_shape = (sum_list results, nat n_registers),
                a2_rows = map (map float32) (expected_samples results bin_data)\<rparr>"
proof -
  have "samples_loop bin_data (nat n_registers) 0 (enumerate 0 results)
          ([] @ np_zeros (sum_list results) (nat n_registers))
        = Inr ([] @ expected_samples results (drop 0 bin_data))"
    using assms(1,3) by (intro samples_loop_closed) simp_all
  then show ?thesis
    using assms(2,4) by (simp add: generate_samples_def Let_def)
qed

lemma chunks_concat:
  "\<forall>row \<in> set xs. length row = n \<Longrightarrow> chunks (length xs) n (concat xs) = xs"
  by (induction xs) simp_all

lemma length_concat_uniform:
  "\<forall>row \<in> set xs. length row = n \<Longrightarrow> length (concat xs) = length xs * n"
  by (induction xs) simp_all

lemma expected_samples_rows:
  "\<forall>row \<in> set bin_data. length row = n + 1 \<Longrightarrow> \<forall>row \<in> set (expected_samples results bin_data). length row = n"
  by (auto simp: expected_samples_def dest!: set_zip_rightD)

lemma map2_add_np_zeros:
  "\<forall>row \<in> set xs. length row = n \<Longrightarrow> map2 (map2 (+)) xs (np_zeros (length xs) n) = xs"
  unfolding np_zeros_def by (induction xs) (simp_all add: map2_add_zeros_right)

lemma generate_samples_efficient_closed:
  assumes "length results = length bin_data"
    and "bin_data \<noteq> []"
    and "\<forall>row \<in> set bin_data. length row = nat n_registers + 1"
    and "1 \<le> n_registers"
  shows "generate_samples_efficient float32 results bin_data n_registers
         = Inr \<lparr>a2_shape = (sum_list results, nat n_registers),
                a2_rows = map (map float32) (expected_samples results bin_data)\<rparr>"
proof -
  let ?n = "nat n_registers"
  let ?B = "expected_samples results bin_data"
  have rep: "np_repeat (map (drop 1) bin_data) results = Inr ?B"
  proof -
    have "map2 replicate results (map (drop 1) bin_data)
          = map2 (\<lambda>v row. replicate v (drop 1 row)) results bin_data"
      by (auto simp: zip_map2)
    then show ?thesis using assms(1) by (simp add: np_repeat_def expected_samples_def)
  qed
  have rows: "\<forall>row \<in> set ?B. length row = ?n"
    using assms(3) by (rule expected_samples_rows)
  have len: "length ?B = sum_list results"
    using assms(1) by (simp add: length_expected_samples)
  have resh: "np_reshape ?B (sum_list results) ?n = Inr ?B"
    using chunks_concat[OF rows] length_concat_uniform[OF rows] len
    by (simp add: np_reshape_def)
  have add: "map2 (map2 (+)) ?B (np_zeros (sum_list results) ?n) = ?B"
    using map2_add_np_zeros[OF rows] len by simp
  show ?thesis
    using assms(2,4) rep resh add by (simp add: generate_samples_efficient_def Let_def)
qed

lemma generate_samples_example:
  "generate_samples id [2, 0, 1] [[0, 1 / 4, 1 / 4], [1, 1 / 4, 3 / 4], [2, 3 / 4, 1 / 4]] 2
   = Inr \<lparr>a2_shape = (3, 2), a2_rows = [[1 / 4, 1 / 4], [1 / 4, 1 / 4], [3 / 4, 1 / 4]]\<rparr>"
  by code_simp

section \<open>The two sample generators agree on well-shaped bins\<close>

text \<open>
  Claim C2, as amended. For every array of counts \<open>results\<close> with
  \<open>len(results) == len(bin_data)\<close>, every \<open>n_registers \<ge> 1\<close> and every \<open>bin_data\<close>
  whose rows have exactly \<open>n_registers + 1\<close> columns, \<open>generate_samples\<close> and
  \<open>generate_samples_efficient\<close> without noise have the same outcome; when \<open>bin_data\<close>
  has at least one row, that outcome is an array of shape \<open>(sum(results), n_registers)\<close>
  (when it has none, both raise \<open>ZeroDivisionError\<close>).
\<close>

theorem generate_samples_efficient_eq:
  assumes "length results = length bin_data"
    and "\<forall>row \<in> set bin_data. length row = nat n_registers + 1"
    and "1 \<le> n_registers"
  shows "generate_samples float32 results bin_data n_registers
           = generate_samples_efficient float32 results bin_data n_registers
         \<and> (bin_data \<noteq> [] \<longrightarrow>
              generate_samples float32 results bin_data n_registers
                = Inr \<lparr>a2_shape = (sum_list results, nat n_registers),
                       a2_rows = map (map float32) (expected_samples results bin_data)\<rparr>)
         \<and> (bin_data = [] \<longrightarrow>
              generate_samples float32 results bin_data n_registers = Inl ZeroDivisionError
              \<and> generate_samples_efficient float32 results bin_data n_registers
                  = Inl ZeroDivisionError)"
proof (cases "bin_data = []")
  case True
  then show ?thesis by (simp add: generate_samples_def generate_samples_efficient_def)
next
  case False
  then show ?thesis
    using generate_samples_closed[of results bin_data n_registers float32]
      generate_samples_efficient_closed[of results bin_data n_registers float32] assms
    by simp
qed

theorem generate_samples_efficient_eq_witness:
  "generate_samples_efficient id [2, 0, 1] [[0, 1 / 4, 1 / 4], [1, 1 / 4, 3 / 4], [2, 3 / 4, 1 / 4]] 2
   = Inr \<lparr>a2_shape = (3, 2), a2_rows = [[1 / 4, 1 / 4], [1 / 4, 1 / 4], [3 / 4, 1 / 4]]\<rparr>"
  using generate_samples_efficient_eq
    [of "[2, 0, 1]" "[[0, 1 / 4, 1 / 4], [1, 1 / 4, 3 / 4], [2, 3 / 4, 1 / 4]]" 2 id]
    generate_samples_example
  by simp

text \<open>
  The column count cannot be left open. With one coordinate column and two registers,
  the loop broadcasts the single coordinate over both columns, while the vectorised
  variant fails to reshape.
\<close>

theorem generate_samples_efficient_counterexample:
  "length [1::nat] = length [[0, 1 / 2 :: rat]] \<and> 1 < length [0, 1 / 2 :: rat] \<and> (1::int) \<le> 2
   \<and> generate_samples id [1] [[0, 1 / 2]] 2
       = Inr \<lparr>a2_shape = (1, 2), a2_rows = [[1 / 2, 1 / 2]]\<rparr>
   \<and> generate_samples_efficient id [1] [[0, 1 / 2]] 2 = Inl ValueError
   \<and> generate_samples id [1] [[0, 1 / 2]] 2 \<noteq> generate_samples_efficient id [1] [[0, 1 / 2]] 2"
  by code_simp

section \<open>The samples are the bin centres, one per shot\<close>

text \<open>
  Claim C4, as amended. For every histogram \<open>results\<close> of counts with
  \<open>len(results) \<le> len(bin_data)\<close>, every \<open>n_registers \<ge> 1\<close> and every non-empty
  \<open>bin_data\<close> whose rows have exactly \<open>n_registers + 1\<close> columns, \<open>generate_samples\<close>
  without noise returns exactly \<open>sum(results)\<close> rows: for each bin index in increasing
  order, the coordinates \<open>bin_data[idx, 1:]\<close> repeated \<open>results[idx]\<close> times, cast
  entry by entry.
\<close>

theorem generate_samples_bin_centers:
  assumes "length results \<le> length bin_data"
    and "bin_data \<noteq> []"
    and "\<forall>row \<in> set bin_data. length row = nat n_registers + 1"
    and "1 \<le> n_registers"
  shows "generate_samples float32 results bin_data n_registers
           = Inr \<lparr>a2_shape = (sum_list results, nat n_registers),
                  a2_rows = map (map float32) (expected_samples results bin_data)\<rparr>
         \<and> length (expected_samples results bin_data) = sum_list results
         \<and> expected_samples results bin_data
             = concat (map2 (\<lambda>value row. replicate value (drop 1 row)) results bin_data)"
  using generate_samples_closed[OF assms, of float32] length_expected_samples[OF assms(1)]
  by (simp add: expected_samples_def)

theorem generate_samples_bin_centers_witness:
  "generate_samples id [1, 2] [[0, 1 / 4], [1, 3 / 4], [2, 5 / 4]] 1
     = Inr \<lparr>a2_shape = (3, 1), a2_rows = [[1 / 4], [3 / 4], [3 / 4]]\<rparr>"
  using generate_samples_bin_centers[of "[1, 2]" "[[0, 1 / 4], [1, 3 / 4], [2, 5 / 4]]" 1 id]
  by (simp add: expected_samples_def numeral_2_eq_2 numeral_3_eq_3)

text \<open>
  Neither restriction can be dropped. With one coordinate column and three registers the
  returned rows hold the coordinate three times, not the bin's one-entry coordinate row;
  and with no bins at all the call raises instead of returning an array of no rows.
\<close>

theorem generate_samples_bin_centers_counterexample:
  "length [2::nat] \<le> length [[0, 1 / 4 :: rat]] \<and> (1::int) \<le> 3
   \<and> generate_samples id [2] [[0, 1 / 4]] 3
       = Inr \<lparr>a2_shape = (2, 3), a2_rows = [[1 / 4, 1 / 4, 1 / 4], [1 / 4, 1 / 4, 1 / 4]]\<rparr>
   \<and> expected_samples [2] [[0, 1 / 4]] = [[1 / 4], [1 / 4]]
   \<and> [[1 / 4, 1 / 4, 1 / 4], [1 / 4, 1 / 4, 1 / 4]] \<noteq> map (map id) (expected_samples [2] [[0, 1 / 4]])
   \<and> length ([] :: nat list) \<le> length ([] :: rat list list) \<and> (1::int) \<le> 1
   \<and> generate_samples id [] [] 1 = (Inl ZeroDivisionError :: py_error + rat array2d)"
  by code_simp

section \<open>Properties of \<open>map_pulp_to_qiskit\<close>\<close>






lemma map_pulp_to_qiskit_example:
  "map_pulp_to_qiskit qiskit_checks example_problem
   = Inr \<lparr>qp_variables = [Binary_var ''x_0'', Integer_var (Some 0) (Some 3) ''x_1''],
          qp_objective = Some (Maximize [(''x_0'', 2), (''x_1'', 1)]),
          qp_constraints = [\<lparr>lc_linear = [(''x_0'', 1)], lc_sense = ''LE'', lc_rhs = 1,
                             lc_name = ''c0''\<rparr>]\<rparr>"
  by code_simp







section \<open>Properties of \<open>Ising.map\<close>\<close>


lemma locate_Z_bound: "i \<in> set (locate_Z p) \<Longrightarrow> i < length p"
  by (auto simp: locate_Z_def in_set_enumerate_eq)

lemma list_len1: "length xs = 1 \<Longrightarrow> xs = [xs ! 0]"
  by (cases xs) auto

lemma list_len2: "length xs = 2 \<Longrightarrow> xs = [xs ! 0, xs ! 1]"
  by (cases xs; cases "tl xs") auto

lemma nth_matrix_update:
  "a0 < length jm \<Longrightarrow> b0 < length (jm ! a0) \<Longrightarrow> a < length jm \<Longrightarrow>
     jm[a0 := (jm ! a0)[b0 := c]] ! a ! b = (if a = a0 \<and> b = b0 then c else jm ! a ! b)"
  by (cases "a = a0"; cases "b = b0") simp_all

lemma ising_loop_closed:
  assumes "\<forall>(p, c) \<in> set terms. length p = n"
    and "length tm = n" and "length jm = n" and "\<forall>row \<in> set jm. length row = n"
  shows "\<exists>tm' jm'. ising_loop terms tm jm = Inr (tm', jm')
           \<and> length tm' = n \<and> length jm' = n \<and> (\<forall>row \<in> set jm'. length row = n)
           \<and> (\<forall>i < n. tm' ! i = last_coeff [i] terms (tm ! i))
           \<and> (\<forall>a < n. \<forall>b < n. jm' ! a ! b = last_coeff [a, b] terms (jm ! a ! b))"
  using assms
proof (induction terms arbitrary: tm jm)
  case Nil
  then show ?case by simp
next
  case (Cons pc terms)
  obtain p c where pc: "pc = (p, c)" by (cases pc)
  have lp: "length p = n" using Cons.prems(1) pc by simp
  have rest: "\<forall>(p, c) \<in> set terms. length p = n" using Cons.prems(1) by simp
  consider (one) "length (locate_Z p) = 1" | (two) "length (locate_Z p) = 2"
    | (other) "length (locate_Z p) \<noteq> 1" "length (locate_Z p) \<noteq> 2" by blast
  then show ?case
  proof cases
    case one
    define i0 where "i0 = locate_Z p ! 0"
    have eq: "locate_Z p = [i0]" using list_len1[OF one] by (simp add: i0_def)
    have i0: "i0 < n" using locate_Z_bound[of i0 p] eq lp by simp
    have step: "ising_loop (pc # terms) tm jm = ising_loop terms (tm[i0 := c]) jm"
      using i0 Cons.prems(2) by (simp add: pc eq)
    obtain tm' jm' where r: "ising_loop terms (tm[i0 := c]) jm = Inr (tm', jm')"
      "length tm' = n" "length jm' = n" "\<forall>row \<in> set jm'. length row = n"
      "\<forall>i < n. tm' ! i = last_coeff [i] terms (tm[i0 := c] ! i)"
      "\<forall>a < n. \<forall>b < n. jm' ! a ! b = last_coeff [a, b] terms (jm ! a ! b)"
      using Cons.IH[OF rest, of "tm[i0 := c]" jm] Cons.prems(2,3,4) by auto
    have "\<forall>i < n. tm' ! i = last_coeff [i] (pc # terms) (tm ! i)"
      using r(5) Cons.prems(2) by (auto simp: pc eq nth_list_update)
    moreover have "\<forall>a < n. \<forall>b < n. jm' ! a ! b = last_coeff [a, b] (pc # terms) (jm ! a ! b)"
      using r(6) by (simp add: pc eq)
    ultimately show ?thesis using r(1-4) step by simp
  next
    case two
    define a0 where "a0 = locate_Z p ! 0"
    define b0 where "b0 = locate_Z p ! 1"
    have eq: "locate_Z p = [a0, b0]" using list_len2[OF two] by (simp add: a0_def b0_def)
    have a0: "a0 < n" using locate_Z_bound[of a0 p] eq lp by simp
    have b0: "b0 < n" using locate_Z_bound[of b0 p] eq lp by simp
    let ?jm = "jm[a0 := (jm ! a0)[b0 := c]]"
    have rowlen: "length (jm ! a0) = n" using Cons.prems(3,4) a0 by simp
    have step: "ising_loop (pc # terms) tm jm = ising_loop terms tm ?jm"
      using a0 b0 Cons.prems(3) rowlen by (simp add: pc eq)
    have rows: "\<forall>row \<in> set ?jm. length row = n"
      using Cons.prems(4) rowlen by (auto dest!: set_update_subset_insert[THEN subsetD])
    obtain tm' jm' where r: "ising_loop terms tm ?jm = Inr (tm', jm')"
      "length tm' = n" "length jm' = n" "\<forall>row \<in> set jm'. length row = n"
      "\<forall>i < n. tm' ! i = last_coeff [i] terms (tm ! i)"
      "\<forall>a < n. \<forall>b < n. jm' ! a ! b = last_coeff [a, b] terms (?jm ! a ! b)"
      using Cons.IH[OF rest, of tm ?jm] Cons.prems(2,3) rows by auto
    have "\<forall>i < n. tm' ! i = last_coeff [i] (pc # terms) (tm ! i)"
      using r(5) by (simp add: pc eq)
    moreover have "\<forall>a < n. \<forall>b < n. jm' ! a ! b = last_coeff [a, b] (pc # terms) (jm ! a ! b)"
    proof (intro allI impI)
      fix a b assume ab: "a < n" "b < n"
      have "?jm ! a ! b = (if a = a0 \<and> b = b0 then c else jm ! a ! b)"
        using a0 b0 ab Cons.prems(3) rowlen by (intro nth_matrix_update) simp_all
      then show "jm' ! a ! b = last_coeff [a, b] (pc # terms) (jm ! a ! b)"
        using r(6) ab by (auto simp: pc eq)
    qed
    ultimately show ?thesis using r(1-4) step by simp
  next
    case other
    have step: "ising_loop (pc # terms) tm jm = ising_loop terms tm jm"
      using other by (simp add: pc)
    have ne: "locate_Z p \<noteq> [i]" "locate_Z p \<noteq> [a, b]" for i a b
      using other by auto
    obtain tm' jm' where r: "ising_loop terms tm jm = Inr (tm', jm')"
      "length tm' = n" "length jm' = n" "\<forall>row \<in> set jm'. length row = n"
      "\<forall>i < n. tm' ! i = last_coeff [i] terms (tm ! i)"
      "\<forall>a < n. \<forall>b < n. jm' ! a ! b = last_coeff [a, b] terms (jm ! a ! b)"
      using Cons.IH[OF rest, of tm jm] Cons.prems(2,3,4) by auto
    show ?thesis using r step by (simp add: pc ne)
  qed
qed

lemma last_coeff_none:
  "\<forall>(p, c) \<in> set terms. locate_Z p \<noteq> pos \<Longrightarrow> last_coeff pos terms d = d"
  by (induction terms arbitrary: d) auto

lemma last_coeff_last:
  assumes "m < length terms" and "locate_Z (fst (terms ! m)) = pos"
    and "\<forall>m'. m < m' \<and> m' < length terms \<longrightarrow> locate_Z (fst (terms ! m')) \<noteq> pos"
  shows "last_coeff pos terms d = snd (terms ! m)"
  using assms
proof (induction terms arbitrary: m d)
  case Nil
  then show ?case by simp
next
  case (Cons pc terms)
  obtain p c where pc: "pc = (p, c)" by (cases pc)
  show ?case
  proof (cases m)
    case 0
    have "\<forall>(p, c) \<in> set terms. locate_Z p \<noteq> pos"
    proof (clarify)
      fix q e assume "(q, e) \<in> set terms" and q: "pos = locate_Z q"
      then obtain k where "k < length terms" "terms ! k = (q, e)" by (auto simp: in_set_conv_nth)
      then show False using Cons.prems(3)[rule_format, of "Suc k"] 0 q by simp
    qed
    then show ?thesis using Cons.prems(2) 0 by (simp add: pc last_coeff_none)
  next
    case (Suc k)
    have "last_coeff pos terms d' = snd (terms ! k)" for d'
    proof (rule Cons.IH)
      show "k < length terms" using Cons.prems(1) Suc by simp
      show "locate_Z (fst (terms ! k)) = pos" using Cons.prems(2) Suc by simp
      show "\<forall>m'. k < m' \<and> m' < length terms \<longrightarrow> locate_Z (fst (terms ! m')) \<noteq> pos"
        using Cons.prems(3) Suc by (metis Suc_less_eq length_Cons nth_Cons_Suc)
    qed
    then show ?thesis using Suc by (simp add: pc)
  qed
qed
lemma Ising_map_example:
  "Ising_map qiskit_checks (\<lambda>qp. Inr example_conv) example_problem
   = Inr (\<lparr>J = [[0, 0, 3], [0, 0, 0], [0, 0, 0]], t = [0, 2, 0]\<rparr>, [''x_0'', ''x_1@0'', ''x_1@1''])"
  by (simp add: Ising_map_def map_pulp_to_qiskit_example example_conv_def locate_Z_def Let_def
      numeral_3_eq_3)

lemma Ising_map_PauliOp:
  assumes "map_pulp_to_qiskit checks problem = Inr qp"
    and "to_qubo_to_ising qp = Inr conv"
    and "qubitOp conv = PauliOp m p c"
  shows "Ising_map checks to_qubo_to_ising problem = Inl TypeError"
  using assms by (simp add: Ising_map_def Let_def)

lemma Ising_map_PauliSumOp:
  assumes "map_pulp_to_qiskit checks problem = Inr qp"
    and "to_qubo_to_ising qp = Inr conv"
    and "qubitOp conv = PauliSumOp n terms"
    and wf: "\<forall>(p, c) \<in> set terms. length p = n"
  shows "\<exists>res. Ising_map checks to_qubo_to_ising problem = Inr (res, qubo_variables conv)
    \<and> length (t res) = n
    \<and> length (J res) = n
    \<and> (\<forall>row \<in> set (J res). length row = n)
    \<and> (\<forall>m < length terms.
          (\<forall>m'. m < m' \<and> m' < length terms
              \<longrightarrow> locate_Z (fst (terms ! m')) \<noteq> locate_Z (fst (terms ! m)))
          \<longrightarrow> (\<forall>i. locate_Z (fst (terms ! m)) = [i] \<longrightarrow> t res ! i = snd (terms ! m))
            \<and> (\<forall>i j. locate_Z (fst (terms ! m)) = [i, j] \<longrightarrow> J res ! i ! j = snd (terms ! m)))
    \<and> (\<forall>i < n. (\<forall>(p, c) \<in> set terms. locate_Z p \<noteq> [i]) \<longrightarrow> t res ! i = 0)
    \<and> (\<forall>i < n. \<forall>j < n. (\<forall>(p, c) \<in> set terms. locate_Z p \<noteq> [i, j]) \<longrightarrow> J res ! i ! j = 0)"
proof -
  obtain tm jm where r: "ising_loop terms (replicate n 0) (replicate n (replicate n 0)) = Inr (tm, jm)"
    "length tm = n" "length jm = n" "\<forall>row \<in> set jm. length row = n"
    "\<forall>i < n. tm ! i = last_coeff [i] terms (replicate n 0 ! i)"
    "\<forall>a < n. \<forall>b < n. jm ! a ! b = last_coeff [a, b] terms (replicate n (replicate n 0) ! a ! b)"
    using ising_loop_closed[OF wf, of "replicate n 0" "replicate n (replicate n 0)"] by auto
  have tv: "tm ! i = last_coeff [i] terms 0" if "i < n" for i
    using r(5) that by simp
  have jv: "jm ! a ! b = last_coeff [a, b] terms 0" if "a < n" "b < n" for a b
    using r(6) that by simp
  have run: "Ising_map checks to_qubo_to_ising problem
             = Inr (\<lparr>J = jm, t = tm\<rparr>, qubo_variables conv)"
    using assms(1,2,3) r(1) by (simp add: Ising_map_def Let_def)
  have pos: "i < n" if "m < length terms" "i \<in> set (locate_Z (fst (terms ! m)))" for m i
  proof -
    have "terms ! m \<in> set terms" using that(1) by simp
    then have "length (fst (terms ! m)) = n"
      using wf by (auto simp: split_beta)
    then show ?thesis using locate_Z_bound[OF that(2)] by simp
  qed
  have last1: "tm ! i = snd (terms ! m)"
    if "m < length terms"
      "\<forall>m'. m < m' \<and> m' < length terms \<longrightarrow> locate_Z (fst (terms ! m')) \<noteq> locate_Z (fst (terms ! m))"
      "locate_Z (fst (terms ! m)) = [i]" for m i
  proof -
    have "i < n" using pos[OF that(1), of i] that(3) by simp
    moreover have "last_coeff [i] terms 0 = snd (terms ! m)"
      using that by (intro last_coeff_last) simp_all
    ultimately show ?thesis by (simp add: tv)
  qed
  have last2: "jm ! i ! j = snd (terms ! m)"
    if "m < length terms"
      "\<forall>m'. m < m' \<and> m' < length terms \<longrightarrow> locate_Z (fst (terms ! m')) \<noteq> locate_Z (fst (terms ! m))"
      "locate_Z (fst (terms ! m)) = [i, j]" for m i j
  proof -
    have "i < n" "j < n" using pos[OF that(1), of i] pos[OF that(1), of j] that(3) by simp_all
    moreover have "last_coeff [i, j] terms 0 = snd (terms ! m)"
      using that by (intro last_coeff_last) simp_all
    ultimately show ?thesis by (simp add: jv)
  qed
  have none1: "tm ! i = 0" if "i < n" "\<forall>(p, c) \<in> set terms. locate_Z p \<noteq> [i]" for i
    using that by (simp add: tv last_coeff_none)
  have none2: "jm ! i ! j = 0" if "i < n" "j < n" "\<forall>(p, c) \<in> set terms. locate_Z p \<noteq> [i, j]" for i j
    using that by (simp add: jv last_coeff_none)
  define res where "res = \<lparr>J = jm, t = tm\<rparr>"
  have sel: "t res = tm" "J res = jm" by (simp_all add: res_def)
  have c1: "Ising_map checks to_qubo_to_ising problem = Inr (res, qubo_variables conv)"
    using run by (simp add: res_def)
  have c2: "length (t res) = n" and c3: "length (J res) = n"
    and c4: "\<forall>row \<in> set (J res). length row = n"
    using r(2,3,4) by (simp_all add: sel)
  have c5: "\<forall>m < length terms.
          (\<forall>m'. m < m' \<and> m' < length terms
              \<longrightarrow> locate_Z (fst (terms ! m')) \<noteq> locate_Z (fst (terms ! m)))
          \<longrightarrow> (\<forall>i. locate_Z (fst (terms ! m)) = [i] \<longrightarrow> t res ! i = snd (terms ! m))
            \<and> (\<forall>i j. locate_Z (fst (terms ! m)) = [i, j] \<longrightarrow> J res ! i ! j = snd (terms ! m))"
    unfolding sel using last1 last2 by blast
  have c6: "\<forall>i < n. (\<forall>(p, c) \<in> set terms. locate_Z p \<noteq> [i]) \<longrightarrow> t res ! i = 0"
    unfolding sel using none1 by blast
  have c7: "\<forall>i < n. \<forall>j < n.
          (\<forall>(p, c) \<in> set terms. locate_Z p \<noteq> [i, j]) \<longrightarrow> J res ! i ! j = 0"
    unfolding sel using none2 by blast
  show ?thesis
    by (rule exI[of _ res]) (intro conjI c1 c2 c3 c4 c5 c6 c7)
qed

text \<open>
  Claim C7, as amended. When \<open>map_pulp_to_qiskit\<close> and the external conversion return
  and the resulting operator is a sum operator whose Pauli strings all have
  \<open>num_qubits\<close> characters, \<open>Ising.map\<close> returns the dict of \<open>J\<close> and \<open>t\<close>, both of
  size \<open>num_qubits\<close>, where for each term of the operator that no later term repeats in
  its \<open>Z\<close> positions: \<open>t[i]\<close> is the term's coefficient when the term has exactly one
  \<open>Z\<close>, at position \<open>i\<close>, and \<open>J[i][j]\<close> is the term's coefficient when the term has
  \<open>Z\<close> exactly at positions \<open>i\<close> and \<open>j\<close> (first and second). A term with any other
  number of \<open>Z\<close>s writes to neither matrix, and a cell that no term addresses is 0. When
  the resulting operator is a single Pauli operator, \<open>Ising.map\<close> raises \<open>TypeError\<close>.
\<close>

theorem Ising_map_matrices:
  assumes "map_pulp_to_qiskit checks problem = Inr qp"
    and "to_qubo_to_ising qp = Inr conv"
  shows "(\<forall>m p c. qubitOp conv = PauliOp m p c
            \<longrightarrow> Ising_map checks to_qubo_to_ising problem = Inl TypeError)
    \<and> (\<forall>n terms. qubitOp conv = PauliSumOp n terms \<and> (\<forall>(p, c) \<in> set terms. length p = n)
          \<longrightarrow> (\<exists>res. Ising_map checks to_qubo_to_ising problem = Inr (res, qubo_variables conv)
    \<and> length (t res) = n
    \<and> length (J res) = n
    \<and> (\<forall>row \<in> set (J res). length row = n)
    \<and> (\<forall>m < length terms.
          (\<forall>m'. m < m' \<and> m' < length terms
              \<longrightarrow> locate_Z (fst (terms ! m')) \<noteq> locate_Z (fst (terms ! m)))
          \<longrightarrow> (\<forall>i. locate_Z (fst (terms ! m)) = [i] \<longrightarrow> t res ! i = snd (terms ! m))
            \<and> (\<forall>i j. locate_Z (fst (terms ! m)) = [i, j] \<longrightarrow> J res ! i ! j = snd (terms ! m)))
    \<and> (\<forall>i < n. (\<forall>(p, c) \<in> set terms. locate_Z p \<noteq> [i]) \<longrightarrow> t res ! i = 0)
    \<and> (\<forall>i < n. \<forall>j < n. (\<forall>(p, c) \<in> set terms. locate_Z p \<noteq> [i, j]) \<longrightarrow> J res ! i ! j = 0)))"
proof (intro conjI allI impI)
  fix m p c assume "qubitOp conv = PauliOp m p c"
  then show "Ising_map checks to_qubo_to_ising problem = Inl TypeError"
    using Ising_map_PauliOp[of checks problem qp to_qubo_to_ising conv m p c] assms by simp
next
  fix n terms
  assume "qubitOp conv = PauliSumOp n terms \<and> (\<forall>(p, c) \<in> set terms. length p = n)"
  then show "\<exists>res. Ising_map checks to_qubo_to_ising problem = Inr (res, qubo_variables conv)
    \<and> length (t res) = n
    \<and> length (J res) = n
    \<and> (\<forall>row \<in> set (J res). length row = n)
    \<and> (\<forall>m < length terms.
          (\<forall>m'. m < m' \<and> m' < length terms
              \<longrightarrow> locate_Z (fst (terms ! m')) \<noteq> locate_Z (fst (terms ! m)))
          \<longrightarrow> (\<forall>i. locate_Z (fst (terms ! m)) = [i] \<longrightarrow> t res ! i = snd (terms ! m))
            \<and> (\<forall>i j. locate_Z (fst (terms ! m)) = [i, j] \<longrightarrow> J res ! i ! j = snd (terms ! m)))
    \<and> (\<forall>i < n. (\<forall>(p, c) \<in> set terms. locate_Z p \<noteq> [i]) \<longrightarrow> t res ! i = 0)
    \<and> (\<forall>i < n. \<forall>j < n. (\<forall>(p, c) \<in> set terms. locate_Z p \<noteq> [i, j]) \<longrightarrow> J res ! i ! j = 0)"
    using Ising_map_PauliSumOp[of checks problem qp to_qubo_to_ising conv n terms] assms by blast
qed

theorem Ising_map_matrices_witness:
  "Ising_map qiskit_checks (\<lambda>qp. Inr example_conv) example_problem
     = Inr (\<lparr>J = [[0, 0, 3], [0, 0, 0], [0, 0, 0]], t = [0, 2, 0]\<rparr>, [''x_0'', ''x_1@0'', ''x_1@1''])"
  using Ising_map_matrices
      [of qiskit_checks example_problem
        "\<lparr>qp_variables = [Binary_var ''x_0'', Integer_var (Some 0) (Some 3) ''x_1''],
          qp_objective = Some (Maximize [(''x_0'', 2), (''x_1'', 1)]),
          qp_constraints = [\<lparr>lc_linear = [(''x_0'', 1)], lc_sense = ''LE'', lc_rhs = 1,
                             lc_name = ''c0''\<rparr>]\<rparr>"
        "\<lambda>qp. Inr example_conv" example_conv]
    map_pulp_to_qiskit_example Ising_map_example
  by simp

lemma map_pulp_to_qiskit_single_binary:
  "map_pulp_to_qiskit qiskit_checks problem_single_binary
   = Inr \<lparr>qp_variables = [Binary_var ''x_0''],
          qp_objective = Some (Minimize [(''x_0'', 1)]),
          qp_constraints = []\<rparr>"
  by code_simp

text \<open>
  Two things go wrong outside these conditions. For the problem of one binary variable
  the operator has a single term and is a single Pauli operator, which the loop cannot
  iterate: the call raises instead of returning a dict. And when an operator lists the
  same \<open>Z\<close> positions twice, the later term overwrites the cell, so the first term's
  coefficient is not the value of \<open>t\<close> at its position.
\<close>

theorem Ising_map_matrices_counterexample:
  "Ising_map qiskit_checks (\<lambda>qp. Inr conv_single_term) problem_single_binary = Inl TypeError
   \<and> Ising_map qiskit_checks (\<lambda>qp. Inr conv_repeated_term) example_problem
       = Inr (\<lparr>J = [[0, 0], [0, 0]], t = [2, 0]\<rparr>, [''x_0'', ''x_1''])
   \<and> locate_Z ''ZI'' = [0]
   \<and> [2, 0 :: complex] ! 0 \<noteq> snd ([(''ZI'', 1), (''ZI'', 2 :: complex)] ! 0)"
  by (simp add: Ising_map_def map_pulp_to_qiskit_example map_pulp_to_qiskit_single_binary
      conv_single_term_def conv_repeated_term_def locate_Z_def Let_def numeral_2_eq_2)

section \<open>Properties of \<open>postprocess\<close>\<close>

text \<open>
  Claim C8. \<open>postprocess\<close> returns normally exactly when \<open>reverse_transform(input_data)\<close>
  returns a dict \<open>d\<close>; it then returns \<open>(d', time)\<close>, where \<open>d'\<close> is \<open>d\<close> with key
  \<open>"Transformation"\<close> set to \<open>True\<close> and, whenever \<open>input_data\<close> has the key
  \<open>"inference"\<close>, with key \<open>"inference"\<close> set to \<open>input_data["inference"]\<close>. The default
  \<open>reverse_transform\<close> returns \<open>None\<close>, so the inherited \<open>postprocess\<close> always raises
  \<open>TypeError\<close>.
\<close>

theorem postprocess_spec:
  "((\<exists>r. postprocess rt elapsed input_data config = Inr r)
      \<longleftrightarrow> (\<exists>d. rt input_data = Inr (PyDict d)))
   \<and> (\<forall>d. rt input_data = Inr (PyDict d) \<longrightarrow>
         postprocess rt elapsed input_data config
           = Inr (PyDict (case map_of input_data ''inference'' of
                            None \<Rightarrow> AList.update ''Transformation'' (PyBool True) d
                          | Some inference \<Rightarrow>
                              AList.update ''inference'' inference
                                (AList.update ''Transformation'' (PyBool True) d)),
                  elapsed))
   \<and> postprocess reverse_transform elapsed input_data config = Inl TypeError"
proof (intro conjI allI impI)
  show "(\<exists>r. postprocess rt elapsed input_data config = Inr r)
      \<longleftrightarrow> (\<exists>d. rt input_data = Inr (PyDict d))"
  proof (cases "rt input_data")
    case (Inl e)
    then show ?thesis by (simp add: postprocess_def)
  next
    case (Inr out)
    then show ?thesis
      by (cases out) (simp_all add: postprocess_def split: option.splits)
  qed
next
  fix d assume "rt input_data = Inr (PyDict d)"
  then show "postprocess rt elapsed input_data config
           = Inr (PyDict (case map_of input_data ''inference'' of
                            None \<Rightarrow> AList.update ''Transformation'' (PyBool True) d
                          | Some inference \<Rightarrow>
                              AList.update ''inference'' inference
                                (AList.update ''Transformation'' (PyBool True) d)),
                  elapsed)"
    by (simp add: postprocess_def split: option.splits)
next
  show "postprocess reverse_transform elapsed input_data config = Inl TypeError"
    by (simp add: postprocess_def reverse_transform_def)
qed

theorem postprocess_spec_witness:
  "postprocess (\<lambda>s. Inr (PyDict [(''samples'', PyNum 3)])) 7
       [(''inference'', PyBool False), (''best'', PyNum 1)] ()
     = Inr (PyDict [(''samples'', PyNum 3), (''Transformation'', PyBool True),
                    (''inference'', PyBool False)], 7)
   \<and> postprocess reverse_transform 7 [(''inference'', PyBool False), (''best'', PyNum 1)] ()
     = Inl TypeError"
  using postprocess_spec[of "\<lambda>s. Inr (PyDict [(''samples'', PyNum 3)])" 7
      "[(''inference'', PyBool False), (''best'', PyNum 1)]" "()"]
  by simp

section \<open>Properties of \<open>HelperClass\<close>\<close>

lemma HelperClass_init_super:
  "super_init s self = Inr self' \<Longrightarrow>
     HelperClass_init super_init s self = Inr (AList.update ''device'' (PyStr s) self')"
  by (simp add: HelperClass_init_def)



section \<open>Properties of \<open>_convert_ising_to_qubo\<close>\<close>

lemma length_nditer_readwrite: "length (nditer_readwrite xs) = length xs"
  by (induction xs) simp_all

lemma nth_nditer_readwrite:
  "i < length xs \<Longrightarrow> nditer_readwrite xs ! i = (if xs ! i = - 1 then 0 else xs ! i)"
proof (induction xs arbitrary: i)
  case Nil
  then show ?case by simp
next
  case (Cons x xs)
  then show ?case by (cases i) simp_all
qed

lemma nditer_readwrite_idem:
  "nditer_readwrite (nditer_readwrite xs) = nditer_readwrite (xs :: 'a::ring_1 list)"
  by (induction xs) simp_all

lemma nditer_readwrite_Nil_iff: "nditer_readwrite xs = [] \<longleftrightarrow> xs = []"
  by (cases xs) simp_all

text \<open>
  Claim C10, as amended. For every numeric array with at least one element,
  \<open>_convert_ising_to_qubo\<close> returns an array of the same shape in which every entry
  equal to \<open>-1\<close> is replaced by \<open>0\<close> and every other entry is unchanged; applying the
  function to its result returns that result again.
\<close>

theorem convert_ising_to_qubo_spec:
  fixes a :: "'a::ring_1 ndarray"
  assumes "nd_data a \<noteq> []"
  shows "\<exists>b. convert_ising_to_qubo a = Inr b
    \<and> nd_shape b = nd_shape a
    \<and> length (nd_data b) = length (nd_data a)
    \<and> (\<forall>i < length (nd_data a).
          nd_data b ! i = (if nd_data a ! i = - 1 then 0 else nd_data a ! i))
    \<and> convert_ising_to_qubo b = Inr b"
  using assms
  by (simp add: convert_ising_to_qubo_def length_nditer_readwrite nth_nditer_readwrite
      nditer_readwrite_idem nditer_readwrite_Nil_iff)

theorem convert_ising_to_qubo_spec_witness:
  "convert_ising_to_qubo \<lparr>nd_shape = [2, 2], nd_data = [1, - 1, - 1, 0 :: int]\<rparr>
     = Inr \<lparr>nd_shape = [2, 2], nd_data = [1, 0, 0, 0]\<rparr>
   \<and> convert_ising_to_qubo \<lparr>nd_shape = [2, 2], nd_data = [1, 0, 0, 0 :: int]\<rparr>
     = Inr \<lparr>nd_shape = [2, 2], nd_data = [1, 0, 0, 0]\<rparr>"
  using convert_ising_to_qubo_spec
    [of "\<lparr>nd_shape = [2, 2], nd_data = [1, - 1, - 1, 0 :: int]\<rparr>"]
  by (simp add: convert_ising_to_qubo_def)

text \<open>
  An array of no elements is not converted: the iterator refuses it with \<open>ValueError\<close>.
\<close>

theorem convert_ising_to_qubo_spec_counterexample:
  "convert_ising_to_qubo \<lparr>nd_shape = [0], nd_data = ([] :: int list)\<rparr> = Inl ValueError"
  by (simp add: convert_ising_to_qubo_def)

end
